theory Spec2Isabelle
  imports Complex_Main
begin

section \<open>API dashboard: fetch hook, view state, pagination and chart geometry\<close>

text \<open>
  A shallow embedding of \<^verbatim>\<open>components/ApiDashboard.tsx\<close> and
  \<^verbatim>\<open>components/ApiDashboardV3.tsx\<close>.

  Conventions of the embedding.
  \<^item> A JavaScript \<^verbatim>\<open>number\<close> that carries a measurement (a chart value, a percentage, a
    coordinate) is a \<^typ>\<open>real\<close>: arithmetic is exact, rounding of IEEE doubles is not
    modelled. Array lengths and indices are \<^typ>\<open>nat\<close>, page numbers are \<^typ>\<open>int\<close>.
  \<^item> React state (\<^verbatim>\<open>useState\<close>) is a record that every handler takes and returns.
  \<^item> An effect with a dependency array (\<^verbatim>\<open>useEffect(f, deps)\<close>) runs after the first
    render and after every render in which a dependency differs from its value at the
    previous render; it does not run when the dependencies are unchanged.
\<close>

subsection \<open>Numbers as text\<close>

text \<open>
  \<^verbatim>\<open>`${n}`\<close> for a non-negative integer \<open>n\<close>: its decimal digits.
\<close>

fun dec :: "nat \<Rightarrow> string" where
  "dec n = (if n < 10 then [char_of (48 + n)]
            else dec (n div 10) @ [char_of (48 + n mod 10)])"

declare dec.simps [simp del]

text \<open>
  \<^verbatim>\<open>x.toFixed(1)\<close> (ECMAScript \<open>Number.prototype.toFixed\<close> with one fraction digit):
  the sign is taken off first, then \<open>n\<close> is the integer with \<open>n / 10\<close> nearest to
  \<open>x\<close> (the larger one on a tie), printed with its last digit behind the point.
  Magnitudes from \<open>10^21\<close> on, which JavaScript prints in exponent notation, are outside
  the model.
\<close>

definition toFixed1 :: "real \<Rightarrow> string" where
  "toFixed1 x =
     (let a = \<bar>x\<bar>;
          n = nat \<lfloor>a * 10 + 1 / 2\<rfloor>
      in (if x < 0 then ''-'' else '''') @ dec (n div 10) @ ''.'' @ dec (n mod 10))"

subsection \<open>Fetch hook: \<^verbatim>\<open>useDashboard\<close>\<close>

text \<open>
  \<^verbatim>\<open>
  function useDashboard(apiUrl: string, timeWindow: string) {
    const [data, setData] = useState<DashboardData | null>(null);
    const [loading, setLoading] = useState(true);
    const [error, setError] = useState<string | null>(null);

    useEffect(() => {
      let cancelled = false;
      setLoading(true);
      setError(null);

      fetch(`${apiUrl}?window=${encodeURIComponent(timeWindow)}`)
        .then((r) => { if (!r.ok) throw new Error(`HTTP ${r.status}`);
                       return r.json() as Promise<DashboardData>; })
        .then((d) => { if (!cancelled) setData(d); })
        .catch((e: Error) => { if (!cancelled) setError(e.message); })
        .finally(() => { if (!cancelled) setLoading(false); });

      return () => { cancelled = true; };
    }, [apiUrl, timeWindow]);

    return { data, loading, error };
  }
  \<close>
  The hook is the same in both components. The payload type is a parameter \<open>'p\<close>.

  Every run of the effect creates its own \<^verbatim>\<open>cancelled\<close> variable, captured by the
  four promise callbacks and by the cleanup function of that run. The model keeps one
  flag per run, in start order: request \<open>i\<close> is the \<open>i\<close>-th run of the effect.
\<close>

record 'p hook_state =
  data :: "'p option"
  loading :: bool
  error :: "string option"
  cancelled :: "bool list"

text \<open>
  What the network hands to the promise chain: a response with its status and the result
  of \<^verbatim>\<open>r.json()\<close> (the parsed payload, or the message of the error it rejects with), or
  a rejected \<^verbatim>\<open>fetch\<close> with the message of its error.
\<close>

datatype 'p fetch_result =
    Response nat "string + 'p"
  | NetworkFailure string

text \<open>\<^verbatim>\<open>r.ok\<close>: the status is in the range 200 to 299.\<close>

definition ok :: "nat \<Rightarrow> bool" where
  "ok status = (200 \<le> status \<and> status \<le> 299)"

text \<open>
  The first \<^verbatim>\<open>.then\<close>: the value the chain carries on, \<open>Inl\<close> the message of the
  error thrown or rejected with, \<open>Inr\<close> the payload.
\<close>

definition first_then :: "'p fetch_result \<Rightarrow> string + 'p" where
  "first_then r =
     (case r of
        NetworkFailure msg \<Rightarrow> Inl msg
      | Response status body \<Rightarrow>
          if \<not> ok status then Inl (''HTTP '' @ dec status) else body)"

text \<open>
  The callbacks of request \<open>rid\<close>, run when its promise settles with \<open>r\<close>. Each reads
  the \<^verbatim>\<open>cancelled\<close> flag of its own run. A request that was never started has no
  callbacks: the state is returned as it is.
\<close>

definition settle :: "'p hook_state \<Rightarrow> nat \<Rightarrow> 'p fetch_result \<Rightarrow> 'p hook_state" where
  "settle s rid r =
     (if rid < length (cancelled s) then
        (let c = cancelled s ! rid;
             s1 = (case first_then r of
                     Inr d \<Rightarrow> if \<not> c then s\<lparr>data := Some d\<rparr> else s
                   | Inl msg \<Rightarrow> if \<not> c then s\<lparr>error := Some msg\<rparr> else s)
         in if \<not> c then s1\<lparr>loading := False\<rparr> else s1)
      else s)"

text \<open>
  The cleanup function of the latest run of the effect: \<^verbatim>\<open>cancelled = true\<close>
  for that run. Before the first run there is nothing to clean up.
\<close>

definition cleanup :: "'p hook_state \<Rightarrow> 'p hook_state" where
  "cleanup s =
     (if cancelled s = [] then s
      else s\<lparr>cancelled := (cancelled s)[length (cancelled s) - 1 := True]\<rparr>)"

text \<open>
  A run of the effect (at mount, and whenever \<^verbatim>\<open>apiUrl\<close> or \<^verbatim>\<open>timeWindow\<close>
  changed): React first calls the cleanup of the previous run, then the effect body,
  which starts a new request with a fresh flag.
\<close>

definition start :: "'p hook_state \<Rightarrow> 'p hook_state" where
  "start s =
     (let s0 = cleanup s
      in s0\<lparr>cancelled := cancelled s0 @ [False], loading := True, error := None\<rparr>)"

text \<open>The state of the three \<^verbatim>\<open>useState\<close> calls before the effect has run.\<close>

definition initial_hook :: "'p hook_state" where
  "initial_hook = \<lparr>data = None, loading = True, error = None, cancelled = []\<rparr>"

datatype 'p hook_event = Start | Settle nat "'p fetch_result"

fun hook_step :: "'p hook_state \<Rightarrow> 'p hook_event \<Rightarrow> 'p hook_state" where
  "hook_step s Start = start s"
| "hook_step s (Settle rid r) = settle s rid r"

definition run :: "'p hook_state \<Rightarrow> 'p hook_event list \<Rightarrow> 'p hook_state" where
  "run s evs = foldl hook_step s evs"

text \<open>
  The status of the spec's \<open>FetchState\<close>, read off the three state variables the way the
  components render them. The error banner is \<^verbatim>\<open>{error && ( ... )}\<close>: it shows when
  \<^verbatim>\<open>error\<close> is truthy, that is, neither \<^verbatim>\<open>null\<close> nor the empty string. The
  skeletons show while \<^verbatim>\<open>loading\<close>.
\<close>

datatype fetch_status = Loading | Success | Error

definition truthy :: "string option \<Rightarrow> bool" where
  "truthy e = (case e of None \<Rightarrow> False | Some m \<Rightarrow> m \<noteq> [])"

definition status_of :: "'p hook_state \<Rightarrow> fetch_status" where
  "status_of s = (if truthy (error s) then Error else if loading s then Loading else Success)"

subsection \<open>View state of \<^verbatim>\<open>ApiDashboardV3\<close>\<close>

text \<open>
  \<^verbatim>\<open>
  const [activeWindow, setActiveWindow] = useState("24h");
  const [alertDismissed, setAlertDismissed] = useState(false);
  const [page, setPage] = useState(1);
  const [expandedPath, setExpandedPath] = useState<string | null>(null);

  const toggleExpand = (path: string) =>
    setExpandedPath((prev) => (prev === path ? null : path));
  ...
  // Reset to page 1 when data refreshes
  useEffect(() => { setPage(1); setAlertDismissed(false); }, [activeWindow]);
  \<close>
  \<^verbatim>\<open>ApiDashboard\<close> has the same \<^verbatim>\<open>activeWindow\<close> and \<^verbatim>\<open>alertDismissed\<close> state and
  the effect \<^verbatim>\<open>useEffect(() => { setAlertDismissed(false); }, [activeWindow])\<close>; it has
  no page and no expanded row.
\<close>

record view_state =
  activeWindow :: string
  alertDismissed :: bool
  page :: int
  expandedPath :: "string option"

definition initial_view :: view_state where
  "initial_view =
     \<lparr>activeWindow = ''24h'', alertDismissed = False, page = 1, expandedPath = None\<rparr>"

text \<open>The windows the selector offers: \<^verbatim>\<open>["1h","6h","24h","7d","30d"]\<close>.\<close>

definition windows :: "string list" where
  "windows = [''1h'', ''6h'', ''24h'', ''7d'', ''30d'']"

definition setActiveWindow :: "string \<Rightarrow> view_state \<Rightarrow> view_state" where
  "setActiveWindow w s = s\<lparr>activeWindow := w\<rparr>"

text \<open>
  The body of the effect, and the effect as React runs it after a render: \<open>prev\<close> is the
  state at the previous render, \<open>cur\<close> the state at this one, and the body runs only if
  the dependency \<^verbatim>\<open>activeWindow\<close> differs between the two.
\<close>

definition reset_effect :: "view_state \<Rightarrow> view_state" where
  "reset_effect s = s\<lparr>page := 1, alertDismissed := False\<rparr>"

definition after_render :: "view_state \<Rightarrow> view_state \<Rightarrow> view_state" where
  "after_render prev cur =
     (if activeWindow cur \<noteq> activeWindow prev then reset_effect cur else cur)"

text \<open>
  A click on the window button \<open>w\<close>: \<^verbatim>\<open>onClick={() => setActiveWindow(w)}\<close>, then the
  render and its effects.
\<close>

definition selectWindow :: "string \<Rightarrow> view_state \<Rightarrow> view_state" where
  "selectWindow w s = after_render s (setActiveWindow w s)"

definition toggleExpand :: "string \<Rightarrow> view_state \<Rightarrow> view_state" where
  "toggleExpand path s =
     s\<lparr>expandedPath := (if expandedPath s = Some path then None else Some path)\<rparr>"

definition dismissAlert :: "view_state \<Rightarrow> view_state" where
  "dismissAlert s = s\<lparr>alertDismissed := True\<rparr>"

subsection \<open>Pagination of \<^verbatim>\<open>ApiDashboardV3\<close>\<close>

text \<open>
  \<^verbatim>\<open>
  const endpoints = data?.endpoints ?? [];
  const totalPages = Math.max(1, Math.ceil(endpoints.length / pageSize));
  const visibleEndpoints = endpoints.slice((page - 1) * pageSize, page * pageSize);
  \<close>
  \<^verbatim>\<open>pageSize\<close> is an integer. With \<^verbatim>\<open>pageSize = 0\<close> the quotient is
  \<^verbatim>\<open>Infinity\<close> or \<^verbatim>\<open>NaN\<close> in JavaScript, which no integer stands for:
  \<open>totalPages\<close> is \<open>None\<close> there.
\<close>

definition totalPages :: "nat \<Rightarrow> int \<Rightarrow> int option" where
  "totalPages n pageSize =
     (if pageSize = 0 then None
      else Some (max 1 \<lceil>rat_of_nat n / rat_of_int pageSize\<rceil>))"

text \<open>
  \<^verbatim>\<open>Array.prototype.slice(b, e)\<close> on integer arguments: a negative index counts
  from the end, both are clamped to the array, and an empty range gives the empty array.
\<close>

definition js_slice :: "'a list \<Rightarrow> int \<Rightarrow> int \<Rightarrow> 'a list" where
  "js_slice xs b e =
     (let len = int (length xs);
          k = (if b < 0 then max (len + b) 0 else min b len);
          fin = (if e < 0 then max (len + e) 0 else min e len)
      in take (nat (fin - k)) (drop (nat k) xs))"

definition visibleEndpoints :: "'a list \<Rightarrow> int \<Rightarrow> int \<Rightarrow> 'a list" where
  "visibleEndpoints endpoints p pageSize =
     js_slice endpoints ((p - 1) * pageSize) (p * pageSize)"

text \<open>
  The pagination footer.
  \<^verbatim>\<open>
  <button onClick={() => setPage((p) => Math.max(1, p - 1))} disabled={page === 1}>
  {Array.from({ length: totalPages }, (_, i) => i + 1).map((p) => (
    <button key={p} onClick={() => setPage(p)} ...>{p}</button>
  ))}
  <button onClick={() => setPage((p) => Math.min(totalPages, p + 1))}
          disabled={page === totalPages}>
  \<close>
  \<open>pageButtons\<close> lists the page numbers that get a button; \<open>selectPage p\<close> is the click
  handler of the button of page \<open>p\<close>.
\<close>

definition pageButtons :: "int \<Rightarrow> int list" where
  "pageButtons tp = map (\<lambda>i. int i + 1) [0..<nat tp]"

definition selectPage :: "int \<Rightarrow> view_state \<Rightarrow> view_state" where
  "selectPage p s = s\<lparr>page := p\<rparr>"

definition prevPage :: "view_state \<Rightarrow> view_state" where
  "prevPage s = s\<lparr>page := max 1 (page s - 1)\<rparr>"

definition nextPage :: "int \<Rightarrow> view_state \<Rightarrow> view_state" where
  "nextPage tp s = s\<lparr>page := min tp (page s + 1)\<rparr>"

text \<open>The spec's \<open>clamp(p, 1, totalPages)\<close>.\<close>

definition clamp :: "int \<Rightarrow> int \<Rightarrow> int \<Rightarrow> int" where
  "clamp p lo hi = max lo (min p hi)"

subsection \<open>Area chart: \<^verbatim>\<open>RequestChart\<close> of \<^verbatim>\<open>ApiDashboard\<close>\<close>

text \<open>
  \<^verbatim>\<open>interface ChartPoint { hour: string; success: number; error: number; }\<close>
  The field \<^verbatim>\<open>error\<close> is \<open>errors\<close> here (\<open>error\<close> is the hook's state variable).
\<close>

record ChartPoint =
  hour :: string
  success :: real
  errors :: real

text \<open>
  \<^verbatim>\<open>
  const W = 560, H = 160, padL = 20, padB = 20, padT = 10;
  const chartW = W - padL;
  const chartH = H - padB - padT;
  const maxVal = Math.max(...points.map((p) => Math.max(p.success, p.error)), 1) * 1.1;

  const px = (i: number) => padL + (i / (points.length - 1)) * chartW;
  const py = (v: number) => padT + (1 - v / maxVal) * chartH;
  \<close>
  \<^verbatim>\<open>Math.max(v1, ..., vn, 1)\<close> is the fold of \<open>max\<close> over the arguments; \<^verbatim>\<open>1.1\<close> is
  \<open>11 / 10\<close>.
\<close>

definition chart_W :: real where "chart_W = 560"
definition chart_H :: real where "chart_H = 160"
definition padL :: real where "padL = 20"
definition padB :: real where "padB = 20"
definition padT :: real where "padT = 10"
definition chartW :: real where "chartW = chart_W - padL"
definition chartH :: real where "chartH = chart_H - padB - padT"

definition maxVal :: "ChartPoint list \<Rightarrow> real" where
  "maxVal points = foldr max (map (\<lambda>p. max (success p) (errors p)) points) 1 * (11 / 10)"

definition px :: "ChartPoint list \<Rightarrow> nat \<Rightarrow> real" where
  "px points i = padL + (real i / real (length points - 1)) * chartW"

definition py :: "ChartPoint list \<Rightarrow> real \<Rightarrow> real" where
  "py points v = padT + (1 - v / maxVal points) * chartH"

text \<open>
  \<^verbatim>\<open>
  const successPts = points.map((p, i) => `${px(i)},${py(p.success)}`).join(" ");
  \<close>
  The coordinates are kept as numbers; printing a double as text is not modelled.
  The component computes all of this only behind its guard
  \<^verbatim>\<open>if (!points || points.length < 2) return <svg ... />\<close>, on at least two points.
\<close>

definition successPts :: "ChartPoint list \<Rightarrow> (real \<times> real) list" where
  "successPts points =
     map (\<lambda>(i, p). (px points i, py points (success p))) (enumerate 0 points)"

text \<open>
  \<^verbatim>\<open>
  const xLabelIndices = points.reduce<number[]>((acc, _, i) => {
    if (i === 0 || i === points.length - 1 || i % Math.floor(points.length / 5) === 0)
      acc.push(i);
    return acc;
  }, []);
  \<close>
  The remainder \<^verbatim>\<open>i % 0\<close> is \<^verbatim>\<open>NaN\<close> in JavaScript, and \<^verbatim>\<open>NaN === 0\<close> is false;
  \<open>js_mod\<close> returns \<open>None\<close> for \<^verbatim>\<open>NaN\<close>. On a natural number \<open>n\<close>,
  \<^verbatim>\<open>Math.floor(n / 5)\<close> is \<open>n div 5\<close>. The callback only runs for an index below the
  length, so \<^verbatim>\<open>points.length - 1\<close> is never negative where it is compared.
\<close>

definition js_mod :: "nat \<Rightarrow> nat \<Rightarrow> nat option" where
  "js_mod a b = (if b = 0 then None else Some (a mod b))"

definition xLabelIndices :: "'a list \<Rightarrow> nat list" where
  "xLabelIndices points =
     foldl (\<lambda>acc i.
              if i = 0 \<or> i = length points - 1 \<or> js_mod i (length points div 5) = Some 0
              then acc @ [i] else acc)
           [] [0..<length points]"

subsection \<open>Donut: \<^verbatim>\<open>DonutChart\<close> of \<^verbatim>\<open>ApiDashboard\<close>, \<^verbatim>\<open>Donut\<close> of \<^verbatim>\<open>ApiDashboardV3\<close>\<close>

text \<open>
  \<^verbatim>\<open>
  function DonutChart({ slices }: { slices: DashboardData["statusCodeBreakdown"] }) {
    const r = 46, cx = 60, cy = 60, circumference = 2 * Math.PI * r;
    let offset = 0;
    return (
      <svg width="120" height="120" viewBox="0 0 120 120">
        <circle cx={cx} cy={cy} r={r} fill="none" stroke="#f3f4f6" strokeWidth="14" />
        {slices.map((s, i) => {
          const dash = (s.pct / 100) * circumference;
          const gap  = circumference - dash;
          const el = (
            <circle key={i} cx={cx} cy={cy} r={r}
              fill="none" stroke={s.color} strokeWidth="14"
              strokeDasharray={`${dash} ${gap}`}
              strokeDashoffset={-offset}
              transform={`rotate(-90 ${cx} ${cy})`}
            />
          );
          offset += dash;
          return el;
        })}
        <text x={cx} y={cy - 5} ...>
          {slices[0]?.pct.toFixed(1)}%
        </text>
        <text x={cx} y={cy + 8} ...>
          success
        </text>
      </svg>
    );
  }
  \<close>
  \<^verbatim>\<open>Donut\<close> is the same function with \<^verbatim>\<open>r = 28, cx = 36, cy = 36\<close>.

  The body of \<^verbatim>\<open>slices.map\<close> reads and updates \<^verbatim>\<open>offset\<close>: the loop is a recursion
  that carries it. The first text element has two children, the value of
  \<^verbatim>\<open>slices[0]?.pct.toFixed(1)\<close> and the literal \<^verbatim>\<open>%\<close>; on the empty array the first
  is \<^verbatim>\<open>undefined\<close>, which React renders as nothing.
\<close>

record StatusBreakdown =
  label :: string
  pct :: real
  color :: string

record arc =
  stroke :: string
  dash :: real
  gap :: real
  dashoffset :: real
  rotate :: "real \<times> real \<times> real"

fun donut_arcs :: "real \<Rightarrow> real \<Rightarrow> real \<Rightarrow> real \<Rightarrow> StatusBreakdown list \<Rightarrow> arc list" where
  "donut_arcs cx cy circumference offset [] = []"
| "donut_arcs cx cy circumference offset (s # ss) =
     (let d = (pct s / 100) * circumference;
          g = circumference - d
      in \<lparr>stroke = color s, dash = d, gap = g, dashoffset = - offset, rotate = (- 90, cx, cy)\<rparr>
         # donut_arcs cx cy circumference (offset + d) ss)"

definition centerText :: "StatusBreakdown list \<Rightarrow> string" where
  "centerText slices =
     (case slices of [] \<Rightarrow> '''' | s # _ \<Rightarrow> toFixed1 (pct s)) @ ''%''"

record donut_svg =
  arcs :: "arc list"
  centerLabel :: string
  caption :: string

definition donut :: "real \<Rightarrow> real \<Rightarrow> real \<Rightarrow> StatusBreakdown list \<Rightarrow> donut_svg" where
  "donut r cx cy slices =
     (let circumference = 2 * pi * r
      in \<lparr>arcs = donut_arcs cx cy circumference 0 slices,
          centerLabel = centerText slices,
          caption = ''success''\<rparr>)"

definition DonutChart :: "StatusBreakdown list \<Rightarrow> donut_svg" where
  "DonutChart slices = donut 46 60 60 slices"

definition Donut :: "StatusBreakdown list \<Rightarrow> donut_svg" where
  "Donut slices = donut 28 36 36 slices"

subsection \<open>The spec's wording, for comparison with the code\<close>

text \<open>
  The spec's vertical scale: the maximum over all primary and secondary values times
  \<open>1.1\<close>, floored at \<open>1\<close>.
\<close>

definition spec_maxValue :: "ChartPoint list \<Rightarrow> real" where
  "spec_maxValue points =
     max (Max (set (map success points) \<union> set (map errors points)) * (11 / 10)) 1"

text \<open>
  The spec's label positions: every \<open>N\<close>-th index with \<open>N = max(1, floor(n / 5))\<close>, and
  the indices \<open>0\<close> and \<open>n - 1\<close>.
\<close>

definition spec_xLabelIndices :: "nat \<Rightarrow> nat list" where
  "spec_xLabelIndices n =
     filter (\<lambda>i. i = 0 \<or> i = n - 1 \<or> i mod (max 1 (n div 5)) = 0) [0..<n]"

section \<open>Properties\<close>

subsection \<open>Fetch hook\<close>

lemma settle_cancelled: "cancelled (settle s rid r) = cancelled s"
  by (simp add: settle_def Let_def split: sum.splits)

lemma run_snoc: "run s (evs @ [e]) = hook_step (run s evs) e"
  by (simp add: run_def)

lemma cancel_last: "(replicate n True @ [False])[n := True] = replicate (Suc n) True"
  using list_update_length[of "replicate n True" False "[]" True]
  by (simp add: replicate_append_same)

text \<open>
  In every state the hook reaches, all requests but the one started last are cancelled,
  and that one is not.
\<close>

lemma flags_reachable:
  "cancelled (run initial_hook evs) = [] \<or>
   (\<exists>n. cancelled (run initial_hook evs) = replicate n True @ [False])"
proof (induction evs rule: rev_induct)
  case Nil
  show ?case by (simp add: run_def initial_hook_def)
next
  case (snoc e evs)
  let ?s = "run initial_hook evs"
  show ?case
  proof (cases e)
    case (Settle rid r)
    with snoc show ?thesis by (simp add: run_snoc settle_cancelled)
  next
    case Start
    from snoc consider "cancelled ?s = []" | n where "cancelled ?s = replicate n True @ [False]"
      by blast
    then have "\<exists>n. cancelled (start ?s) = replicate n True @ [False]"
    proof cases
      case 1
      then have "cancelled (start ?s) = replicate 0 True @ [False]"
        by (simp add: start_def cleanup_def Let_def)
      then show ?thesis by blast
    next
      case 2
      then have "cancelled (start ?s) = replicate (Suc n) True @ [False]"
        by (simp add: start_def cleanup_def Let_def cancel_last del: replicate_Suc)
      then show ?thesis by blast
    qed
    with Start show ?thesis by (simp add: run_snoc)
  qed
qed

lemma reachable_flags:
  assumes "s = run initial_hook evs" "i < length (cancelled s)"
  shows "cancelled s ! i = (i + 1 \<noteq> length (cancelled s))"
proof -
  from flags_reachable[of evs] assms obtain n where n: "cancelled s = replicate n True @ [False]"
    by auto
  show ?thesis
  proof (cases "i < n")
    case True
    then show ?thesis using n by (simp add: nth_append)
  next
    case False
    with assms(2) n have "i = n" by simp
    then show ?thesis using n by (simp add: nth_append)
  qed
qed

lemma settle_stale: "rid < length (cancelled s) \<Longrightarrow> cancelled s ! rid \<Longrightarrow> settle s rid r = s"
  by (simp add: settle_def Let_def split: sum.splits)

lemma settle_live_ok:
  "rid < length (cancelled s) \<Longrightarrow> \<not> cancelled s ! rid \<Longrightarrow> first_then r = Inr d \<Longrightarrow>
   settle s rid r = s\<lparr>data := Some d, loading := False\<rparr>"
  by (simp add: settle_def Let_def)

lemma settle_live_fail:
  "rid < length (cancelled s) \<Longrightarrow> \<not> cancelled s ! rid \<Longrightarrow> first_then r = Inl msg \<Longrightarrow>
   settle s rid r = s\<lparr>error := Some msg, loading := False\<rparr>"
  by (simp add: settle_def Let_def)

lemma settle_data_on_failure: "first_then r = Inl msg \<Longrightarrow> data (settle s rid r) = data s"
  by (simp add: settle_def Let_def)

text \<open>
  C1. Let \<open>s\<close> be any state the hook reaches, \<open>B\<close> the request started last and \<open>A\<close> a
  request started before it. A completion of \<open>A\<close>, whatever its result, leaves the state
  as it is (no transition). If \<open>B\<close> resolves with payload \<open>pb\<close> and \<open>A\<close> completes after
  it, the state is the one \<open>B\<close> left and its payload is \<open>pb\<close>.
\<close>

theorem last_started_wins:
  assumes reach: "s = run initial_hook evs"
      and latest: "B + 1 = length (cancelled s)"
      and order: "A < B"
      and okB: "first_then rB = Inr pb"
  shows "settle s A rA = s \<and>
         settle (settle s B rB) A rA = settle s B rB \<and>
         data (settle (settle s B rB) A rA) = Some pb"
proof -
  from latest order have A: "A < length (cancelled s)" "A + 1 \<noteq> length (cancelled s)" by simp_all
  from latest have B: "B < length (cancelled s)" by simp
  have cA: "cancelled s ! A" using reachable_flags[OF reach A(1)] A(2) by simp
  have cB: "\<not> cancelled s ! B" using reachable_flags[OF reach B] latest by simp
  have 1: "settle s A rA = s" using A(1) cA by (rule settle_stale)
  have sB: "settle s B rB = s\<lparr>data := Some pb, loading := False\<rparr>"
    using B cB okB by (rule settle_live_ok)
  have 2: "settle (settle s B rB) A rA = settle s B rB"
    by (rule settle_stale) (simp_all add: settle_cancelled A(1) cA)
  from 1 2 sB show ?thesis by simp
qed

theorem last_started_wins_witness:
  "data (run initial_hook
           [Start, Start, Settle 1 (Response 200 (Inr ''B'')), Settle 0 (Response 200 (Inr ''A''))])
     = Some ''B'' \<and>
   run initial_hook
     [Start, Start, Settle 1 (Response 200 (Inr ''B'')), Settle 0 (Response 200 (Inr ''A''))]
     = run initial_hook [Start, Start, Settle 1 (Response 200 (Inr ''B''))]"
proof -
  let ?s = "run (initial_hook :: string hook_state) [Start, Start]"
  have len: "1 + 1 = length (cancelled ?s)"
    by (simp add: run_def start_def cleanup_def initial_hook_def)
  have okB: "first_then (Response 200 (Inr ''B'')) = Inr ''B''"
    by (simp add: first_then_def ok_def)
  have ord: "(0::nat) < 1" by simp
  note t = last_started_wins[OF refl len ord okB, of "Response 200 (Inr ''A'')"]
  have e1: "run initial_hook
              [Start, Start, Settle 1 (Response 200 (Inr ''B'')), Settle 0 (Response 200 (Inr ''A''))]
            = settle (settle ?s 1 (Response 200 (Inr ''B''))) 0 (Response 200 (Inr ''A''))"
    by (simp add: run_def)
  have e2: "run initial_hook [Start, Start, Settle 1 (Response 200 (Inr ''B''))]
            = settle ?s 1 (Response 200 (Inr ''B''))"
    by (simp add: run_def)
  from t show ?thesis unfolding e1 e2 by blast
qed

text \<open>
  C8. A fetch that fails, by a response whose status is not 2xx or by a network failure,
  leaves \<open>data\<close> as it was, whichever request it belongs to. When it is the request
  started last in a state the hook reaches, \<open>error\<close> afterwards holds the message
  (\<^verbatim>\<open>HTTP <status>\<close>, or the message of the network error) and \<open>loading\<close> is off; the
  status is \<open>Error\<close> (the banner shows) for every message that is not empty, hence for
  every response with a status outside 2xx.
\<close>

theorem failed_fetch_keeps_payload:
  assumes fails: "r = NetworkFailure msg \<or>
                  (r = Response st body \<and> \<not> ok st \<and> msg = ''HTTP '' @ dec st)"
      and reach: "s = run initial_hook evs"
      and latest: "rid + 1 = length (cancelled s)"
  shows "data (settle s rid r) = data s \<and>
         error (settle s rid r) = Some msg \<and>
         loading (settle s rid r) = False \<and>
         (msg \<noteq> [] \<longrightarrow> status_of (settle s rid r) = Error) \<and>
         (r = Response st body \<longrightarrow> status_of (settle s rid r) = Error) \<and>
         (\<forall>k. data (settle s k r) = data s)"
proof -
  from fails have f: "first_then r = Inl msg" by (auto simp: first_then_def)
  from latest have lt: "rid < length (cancelled s)" by simp
  have "\<not> cancelled s ! rid" using reachable_flags[OF reach lt] latest by simp
  with lt have st: "settle s rid r = s\<lparr>error := Some msg, loading := False\<rparr>"
    using f by (rule settle_live_fail)
  have 1: "status_of (settle s rid r) = Error" if "msg \<noteq> []"
    unfolding st using that by (simp add: status_of_def truthy_def)
  have "msg \<noteq> []" if "r = Response st body"
    using fails that by auto
  then have 2: "r = Response st body \<longrightarrow> status_of (settle s rid r) = Error"
    using 1 by blast
  have 3: "error (settle s rid r) = Some msg" "loading (settle s rid r) = False"
    unfolding st by simp_all
  have 4: "\<forall>k. data (settle s k r) = data s"
    using settle_data_on_failure[OF f] by blast
  from 1 2 3 4 show ?thesis by blast
qed

theorem failed_fetch_keeps_payload_witness:
  "data (run initial_hook
           [Start, Settle 0 (Response 200 (Inr ''payload'')), Start, Settle 1 (Response 503 (Inl ''''))])
     = Some ''payload'' \<and>
   error (run initial_hook
           [Start, Settle 0 (Response 200 (Inr ''payload'')), Start, Settle 1 (Response 503 (Inl ''''))])
     = Some ''HTTP 503'' \<and>
   status_of (run initial_hook
           [Start, Settle 0 (Response 200 (Inr ''payload'')), Start, Settle 1 (Response 503 (Inl ''''))])
     = Error"
proof -
  let ?s = "run (initial_hook :: string hook_state)
              [Start, Settle 0 (Response 200 (Inr ''payload'')), Start]"
  have s: "?s = \<lparr>data = Some ''payload'', loading = True, error = None, cancelled = [True, False]\<rparr>"
    by (simp add: run_def start_def cleanup_def settle_def first_then_def ok_def
        initial_hook_def Let_def)
  have len: "1 + 1 = length (cancelled ?s)" by (simp add: s)
  have d: "dec 503 = ''503''" by code_simp
  have fails: "Response 503 (Inl '''') = NetworkFailure ''HTTP 503'' \<or>
     (Response 503 (Inl '''') = (Response 503 (Inl '''') :: string fetch_result) \<and> \<not> ok 503
       \<and> ''HTTP 503'' = ''HTTP '' @ dec 503)"
    by (simp add: ok_def d)
  note t = failed_fetch_keeps_payload[OF fails refl len]
  have e: "run initial_hook
             [Start, Settle 0 (Response 200 (Inr ''payload'')), Start, Settle 1 (Response 503 (Inl ''''))]
           = settle ?s 1 (Response 503 (Inl ''''))"
    by (simp add: run_def)
  have "data ?s = Some ''payload''" by (simp only: s hook_state.simps)
  with t show ?thesis unfolding e by simp
qed

subsection \<open>View state\<close>

text \<open>
  C2, as the code has it. A click on the window button \<open>w\<close> sets \<open>activeWindow\<close> to
  \<open>w\<close> and leaves \<open>expandedPath\<close> as it was. When \<open>w\<close> differs from the window
  that was active, \<open>page\<close> becomes 1 and \<open>alertDismissed\<close> becomes false; when \<open>w\<close>
  is the window that was already active, the dependency of the effect is unchanged, the
  effect does not run and the state stays as it was.
\<close>

theorem selectWindow_resets_on_change:
  "activeWindow (selectWindow w s) = w \<and>
   expandedPath (selectWindow w s) = expandedPath s \<and>
   (w \<noteq> activeWindow s \<longrightarrow>
      page (selectWindow w s) = 1 \<and> alertDismissed (selectWindow w s) = False) \<and>
   (w = activeWindow s \<longrightarrow> selectWindow w s = s)"
  by (simp add: selectWindow_def after_render_def setActiveWindow_def reset_effect_def)

theorem selectWindow_resets_on_change_witness:
  "activeWindow (selectWindow ''7d'' (toggleExpand ''/v2/users'' (dismissAlert (selectPage 2 initial_view)))) = ''7d'' \<and>
   page (selectWindow ''7d'' (toggleExpand ''/v2/users'' (dismissAlert (selectPage 2 initial_view)))) = 1 \<and>
   alertDismissed (selectWindow ''7d'' (toggleExpand ''/v2/users'' (dismissAlert (selectPage 2 initial_view)))) = False \<and>
   expandedPath (selectWindow ''7d'' (toggleExpand ''/v2/users'' (dismissAlert (selectPage 2 initial_view)))) = Some ''/v2/users''"
proof -
  let ?s = "toggleExpand ''/v2/users'' (dismissAlert (selectPage 2 initial_view))"
  have w: "''7d'' \<noteq> activeWindow ?s"
    by (simp add: toggleExpand_def dismissAlert_def selectPage_def initial_view_def)
  have e: "expandedPath ?s = Some ''/v2/users''"
    by (simp add: toggleExpand_def dismissAlert_def selectPage_def initial_view_def)
  from selectWindow_resets_on_change[of "''7d''" ?s] w e show ?thesis by simp
qed

text \<open>
  The claim as written fails where the button of the active window is clicked: on page 2
  of the window 7d with the alert dismissed, a click on 7d leaves the page at 2 and the
  alert dismissed.
\<close>

theorem selectWindow_same_window_counterexample:
  "\<not> (page (selectWindow ''7d'' (dismissAlert (selectPage 2 (selectWindow ''7d'' initial_view)))) = 1 \<and>
      alertDismissed (selectWindow ''7d'' (dismissAlert (selectPage 2 (selectWindow ''7d'' initial_view)))) = False)"
  by (simp add: selectWindow_def after_render_def setActiveWindow_def reset_effect_def
      dismissAlert_def selectPage_def initial_view_def)

subsection \<open>Pagination\<close>

lemma totalPages_pos:
  assumes "0 < pageSize" "totalPages n pageSize = Some tp"
  shows "tp = max 1 \<lceil>rat_of_nat n / rat_of_int pageSize\<rceil>" and "1 \<le> tp"
  using assms by (simp_all add: totalPages_def)

lemma set_pageButtons: "set (pageButtons tp) = {1..tp}"
proof (rule set_eqI)
  fix p :: int
  show "p \<in> set (pageButtons tp) \<longleftrightarrow> p \<in> {1..tp}"
  proof
    assume "p \<in> set (pageButtons tp)"
    then obtain i where "i < nat tp" "p = int i + 1" by (auto simp: pageButtons_def)
    then show "p \<in> {1..tp}" by simp
  next
    assume "p \<in> {1..tp}"
    then have "p = (\<lambda>i. int i + 1) (nat (p - 1))" "nat (p - 1) \<in> set [0..<nat tp]"
      by auto
    then show "p \<in> set (pageButtons tp)" unfolding pageButtons_def set_map by (rule image_eqI)
  qed
qed

text \<open>
  C3, as the code has it. For a positive page size the page count is produced and is
  \<open>max(1, ceil(n / pageSize))\<close>. The footer has a button exactly for the pages
  \<open>1 .. totalPages\<close>, and the button of page \<open>p\<close> sets the page to \<open>p\<close>, which is
  \<open>clamp(p, 1, totalPages)\<close>. The right arrow sets the page to
  \<open>min(totalPages, page + 1)\<close>, which is \<open>clamp(page + 1, 1, totalPages)\<close> exactly when
  the page is not negative. The left arrow sets the page to \<open>max(1, page - 1)\<close>, which is
  \<open>clamp(page - 1, 1, totalPages)\<close> exactly when the page is at most \<open>totalPages + 1\<close>:
  it has no bound from above.
\<close>

theorem page_controls:
  assumes "0 < pageSize"
  shows "\<exists>tp. totalPages n pageSize = Some tp \<and>
           tp = max 1 \<lceil>rat_of_nat n / rat_of_int pageSize\<rceil> \<and>
           set (pageButtons tp) = {1..tp} \<and>
           (\<forall>p \<in> set (pageButtons tp).
              page (selectPage p s) = p \<and> page (selectPage p s) = clamp p 1 tp) \<and>
           page (nextPage tp s) = min tp (page s + 1) \<and>
           page (prevPage s) = max 1 (page s - 1) \<and>
           (page (nextPage tp s) = clamp (page s + 1) 1 tp \<longleftrightarrow> 0 \<le> page s) \<and>
           (page (prevPage s) = clamp (page s - 1) 1 tp \<longleftrightarrow> page s \<le> tp + 1)"
proof -
  define tp where "tp = max 1 \<lceil>rat_of_nat n / rat_of_int pageSize\<rceil>"
  have some: "totalPages n pageSize = Some tp"
    using assms by (simp add: totalPages_def tp_def)
  have pos: "1 \<le> tp" by (simp add: tp_def)
  have "\<forall>p \<in> set (pageButtons tp).
          page (selectPage p s) = p \<and> page (selectPage p s) = clamp p 1 tp"
    unfolding set_pageButtons by (simp add: selectPage_def clamp_def)
  moreover have "page (nextPage tp s) = min tp (page s + 1)" by (simp add: nextPage_def)
  moreover have "page (prevPage s) = max 1 (page s - 1)" by (simp add: prevPage_def)
  moreover have "page (nextPage tp s) = clamp (page s + 1) 1 tp \<longleftrightarrow> 0 \<le> page s"
    using pos by (auto simp: nextPage_def clamp_def)
  moreover have "page (prevPage s) = clamp (page s - 1) 1 tp \<longleftrightarrow> page s \<le> tp + 1"
    using pos by (auto simp: prevPage_def clamp_def)
  ultimately show ?thesis using some tp_def set_pageButtons by blast
qed

theorem page_controls_witness:
  "totalPages 18 7 = Some 3 \<and>
   set (pageButtons 3) = {1..3} \<and>
   page (selectPage 3 initial_view) = 3 \<and>
   page (nextPage 3 (selectPage 3 initial_view)) = 3 \<and>
   page (prevPage (selectPage 3 initial_view)) = 2"
proof -
  have pos: "(0::int) < 7" by simp
  from page_controls[OF pos, of 18 "selectPage 3 initial_view"]
  obtain tp where tp: "totalPages 18 7 = Some tp"
      "tp = max 1 \<lceil>rat_of_nat 18 / rat_of_int 7\<rceil>"
      "set (pageButtons tp) = {1..tp}"
      "page (nextPage tp (selectPage 3 initial_view)) = min tp (page (selectPage 3 initial_view) + 1)"
      "page (prevPage (selectPage 3 initial_view)) = max 1 (page (selectPage 3 initial_view) - 1)"
    by blast
  from tp(2) have tp3: "tp = 3" by (simp add: ceiling_eq_iff)
  have p3: "page (selectPage 3 initial_view) = 3" by (simp add: selectPage_def)
  from tp(1,3,4,5) show ?thesis unfolding tp3 p3 by simp
qed

text \<open>
  The claim as written fails at a state the component reaches. With 18 endpoints and
  \<^verbatim>\<open>pageSize = 3\<close> there are 6 pages and page 5 has a button; the page is React state
  and is kept when the parent then passes \<^verbatim>\<open>pageSize = 7\<close> (only a change of the
  window resets it), which leaves 3 pages. The left arrow now sets the page to 4, not to
  \<open>clamp(4, 1, 3) = 3\<close>.
\<close>

theorem prevPage_stale_page_counterexample:
  "totalPages 18 3 = Some 6 \<and>
   5 \<in> set (pageButtons 6) \<and>
   totalPages 18 7 = Some 3 \<and>
   page (prevPage (selectPage 5 initial_view)) = 4 \<and>
   page (prevPage (selectPage 5 initial_view))
     \<noteq> clamp (page (selectPage 5 initial_view) - 1) 1 3"
  by (simp add: totalPages_def ceiling_eq_iff set_pageButtons selectPage_def prevPage_def
      clamp_def)

lemma take_drop_nth: "take n (drop k xs) = map ((!) xs) [k ..< min (k + n) (length xs)]"
proof (rule nth_equalityI)
  show "length (take n (drop k xs)) = length (map ((!) xs) [k ..< min (k + n) (length xs)])"
    by simp
next
  fix i assume "i < length (take n (drop k xs))"
  then have i: "i < n" "k + i < length xs" by auto
  then have lt: "k + i < min (k + n) (length xs)" by simp
  then have "[k ..< min (k + n) (length xs)] ! i = k + i" by (rule nth_upt)
  moreover from lt have "i < length [k ..< min (k + n) (length xs)]"
    unfolding length_upt by linarith
  ultimately have "map ((!) xs) [k ..< min (k + n) (length xs)] ! i = xs ! (k + i)"
    by (simp only: nth_map)
  with i show "take n (drop k xs) ! i = map ((!) xs) [k ..< min (k + n) (length xs)] ! i"
    by simp
qed

lemma js_slice_nonneg:
  assumes "0 \<le> b" "0 \<le> e"
  shows "js_slice xs b e = take (nat e - nat b) (drop (nat b) xs)"
proof (cases "b \<le> int (length xs)")
  case False
  then have "length xs \<le> nat b" by simp
  then have "drop (nat b) xs = []" by simp
  moreover from False assms
  have "js_slice xs b e
        = take (nat (min e (int (length xs)) - int (length xs))) (drop (length xs) xs)"
    by (simp add: js_slice_def Let_def min_def)
  ultimately show ?thesis by simp
next
  case True
  with assms
  have s: "js_slice xs b e = take (nat (min e (int (length xs)) - b)) (drop (nat b) xs)"
    by (simp add: js_slice_def Let_def min_def)
  show ?thesis
  proof (cases "e \<le> int (length xs)")
    case True
    from assms have "nat (e - b) = nat e - nat b" by linarith
    with True s show ?thesis by (simp add: min_def)
  next
    case False
    with True assms have "length (drop (nat b) xs) \<le> nat e - nat b" by simp
    then have "take (nat e - nat b) (drop (nat b) xs) = drop (nat b) xs" by simp
    moreover from False True assms
    have "length (drop (nat b) xs) \<le> nat (min e (int (length xs)) - b)"
      by (simp add: min_def)
    then have "take (nat (min e (int (length xs)) - b)) (drop (nat b) xs) = drop (nat b) xs"
      by simp
    ultimately show ?thesis using s by simp
  qed
qed

lemma chunks: "concat (map (\<lambda>k. take ps (drop (k * ps) xs)) [0..<m]) = take (m * ps) xs"
proof (induction m)
  case 0
  show ?case by simp
next
  case (Suc m)
  have "take (Suc m * ps) xs = take (m * ps + ps) xs" by (simp add: add.commute)
  also have "\<dots> = take (m * ps) xs @ take ps (drop (m * ps) xs)" by (rule take_add)
  finally show ?case using Suc by simp
qed

lemma visible_take_drop:
  assumes "1 \<le> p" "0 < ps"
  shows "visibleEndpoints xs p ps = take (nat ps) (drop (nat (p - 1) * nat ps) xs)"
proof -
  have a: "0 \<le> (p - 1) * ps" "0 \<le> p * ps" using assms by simp_all
  have "nat (p * ps) = nat ((p - 1) * ps) + nat ps"
    using assms a by (simp add: nat_add_distrib[symmetric] algebra_simps)
  then have b: "nat (p * ps) - nat ((p - 1) * ps) = nat ps" by simp
  have c: "nat ((p - 1) * ps) = nat (p - 1) * nat ps"
    using assms by (simp add: nat_mult_distrib)
  show ?thesis
    unfolding visibleEndpoints_def using js_slice_nonneg[OF a, of xs] b c by simp
qed

lemma total_covers:
  assumes "0 < ps" "totalPages n ps = Some tp"
  shows "n \<le> nat tp * nat ps"
proof -
  note tp = totalPages_pos[OF assms]
  have "rat_of_nat n / rat_of_int ps \<le> of_int \<lceil>rat_of_nat n / rat_of_int ps\<rceil>"
    by (rule le_of_int_ceiling)
  also have "\<dots> \<le> of_int tp" using tp(1) by simp
  finally have "rat_of_nat n \<le> of_int tp * rat_of_int ps"
    using assms(1) by (simp add: pos_divide_le_eq)
  then have "int n \<le> tp * ps"
    by (metis of_int_le_iff of_int_mult of_int_of_nat_eq)
  moreover have "tp * ps = int (nat tp * nat ps)" using tp(2) assms(1) by simp
  ultimately show "n \<le> nat tp * nat ps" by linarith
qed

lemma pages_concat:
  assumes "0 < ps"
  shows "concat (map (\<lambda>q. visibleEndpoints xs q ps) (pageButtons tp)) = take (nat tp * nat ps) xs"
proof -
  have "map (\<lambda>q. visibleEndpoints xs q ps) (pageButtons tp)
        = map (\<lambda>k. take (nat ps) (drop (k * nat ps) xs)) [0..<nat tp]"
    unfolding pageButtons_def map_map
    by (rule map_cong) (simp_all add: visible_take_drop[OF _ assms])
  then show ?thesis by (simp only: chunks)
qed

text \<open>
  C10. For a page \<open>p \<ge> 1\<close> and a positive page size, the rows of the page are the
  elements of the endpoint list at the indices from \<open>(p - 1) * pageSize\<close> up to, and
  not including, \<open>min (p * pageSize) length\<close>, in that order; there are at most
  \<open>pageSize\<close> of them; and the page count is produced and the pages
  \<open>1 .. totalPages\<close>, one after the other, are the endpoint list.
\<close>

theorem visibleEndpoints_is_page_slice:
  assumes "1 \<le> p" and "0 < pageSize"
  shows "visibleEndpoints xs p pageSize
           = map ((!) xs) [nat ((p - 1) * pageSize) ..< min (nat (p * pageSize)) (length xs)] \<and>
         length (visibleEndpoints xs p pageSize) \<le> nat pageSize \<and>
         (\<exists>tp. totalPages (length xs) pageSize = Some tp \<and>
               tp = max 1 \<lceil>rat_of_nat (length xs) / rat_of_int pageSize\<rceil> \<and>
               concat (map (\<lambda>q. visibleEndpoints xs q pageSize) (pageButtons tp)) = xs)"
proof -
  have v: "visibleEndpoints xs p pageSize = take (nat pageSize) (drop (nat (p - 1) * nat pageSize) xs)"
    using assms by (rule visible_take_drop)
  have k: "nat (p - 1) * nat pageSize = nat ((p - 1) * pageSize)"
    using assms by (simp add: nat_mult_distrib)
  have "0 \<le> (p - 1) * pageSize" using assms by simp
  moreover have "p * pageSize = (p - 1) * pageSize + pageSize" by (simp add: algebra_simps)
  ultimately have e: "nat ((p - 1) * pageSize) + nat pageSize = nat (p * pageSize)"
    using assms(2) by (simp add: nat_add_distrib)
  have 1: "visibleEndpoints xs p pageSize
           = map ((!) xs) [nat ((p - 1) * pageSize) ..< min (nat (p * pageSize)) (length xs)]"
    unfolding v take_drop_nth k e ..
  have 2: "length (visibleEndpoints xs p pageSize) \<le> nat pageSize"
    unfolding v by simp
  define tp where "tp = max 1 \<lceil>rat_of_nat (length xs) / rat_of_int pageSize\<rceil>"
  have some: "totalPages (length xs) pageSize = Some tp"
    using assms(2) by (simp add: totalPages_def tp_def)
  have 3: "concat (map (\<lambda>q. visibleEndpoints xs q pageSize) (pageButtons tp)) = xs"
    using total_covers[OF assms(2) some] by (simp add: pages_concat[OF assms(2)])
  from 1 2 3 some tp_def show ?thesis by blast
qed

theorem visibleEndpoints_is_page_slice_witness:
  "totalPages (length ''abcdefgh'') 3 = Some 3 \<and>
   visibleEndpoints ''abcdefgh'' 3 3 = ''gh'' \<and>
   visibleEndpoints ''abcdefgh'' 2 3 = ''def'' \<and>
   concat (map (\<lambda>q. visibleEndpoints ''abcdefgh'' q 3) (pageButtons 3)) = ''abcdefgh''"
proof -
  have a: "(1::int) \<le> 3" "(1::int) \<le> 2" "(0::int) < 3" by simp_all
  from visibleEndpoints_is_page_slice[OF a(1) a(3), of "''abcdefgh''"]
  obtain tp where
        v3: "visibleEndpoints ''abcdefgh'' 3 3
               = map ((!) ''abcdefgh'') [nat ((3 - 1) * 3) ..< min (nat (3 * 3)) (length ''abcdefgh'')]"
    and tp: "totalPages (length ''abcdefgh'') 3 = Some tp"
            "tp = max 1 \<lceil>rat_of_nat (length ''abcdefgh'') / rat_of_int 3\<rceil>"
    and c: "concat (map (\<lambda>q. visibleEndpoints ''abcdefgh'' q 3) (pageButtons tp)) = ''abcdefgh''"
    by blast
  from tp(2) have tp3: "tp = 3" by (simp add: ceiling_eq_iff)
  from visibleEndpoints_is_page_slice[OF a(2) a(3), of "''abcdefgh''"]
  have v2: "visibleEndpoints ''abcdefgh'' 2 3
               = map ((!) ''abcdefgh'') [nat ((2 - 1) * 3) ..< min (nat (2 * 3)) (length ''abcdefgh'')]"
    by blast
  from v3 have p3: "visibleEndpoints ''abcdefgh'' 3 3 = ''gh''"
    by (simp add: upt_conv_Cons)
  from v2 have p2: "visibleEndpoints ''abcdefgh'' 2 3 = ''def''"
    by (simp add: upt_conv_Cons)
  from p3 p2 c tp(1) show ?thesis unfolding tp3 by blast
qed

subsection \<open>Area chart\<close>

lemma foldr_max_Max:
  "foldr max (map (\<lambda>p. max (success p) (errors p)) points) 1
     = (if points = [] then 1
        else max (Max (set (map success points) \<union> set (map errors points))) 1)"
proof (induction points)
  case Nil
  show ?case by simp
next
  case (Cons p ps)
  show ?case
  proof (cases "ps = []")
    case True
    then show ?thesis by simp
  next
    case False
    let ?S = "set (map success ps) \<union> set (map errors ps)"
    have fin: "finite ?S" "?S \<noteq> {}" using False by simp_all
    have "set (map success (p # ps)) \<union> set (map errors (p # ps))
          = insert (success p) (insert (errors p) ?S)" by auto
    then have "Max (set (map success (p # ps)) \<union> set (map errors (p # ps)))
          = max (success p) (max (errors p) (Max ?S))"
      using fin by simp
    with Cons False show ?thesis by (simp add: max.assoc)
  qed
qed

lemma successPts_nth:
  "i < length points \<Longrightarrow> successPts points ! i = (px points i, py points (success (points ! i)))"
  by (simp add: successPts_def nth_enumerate_eq)

text \<open>
  C4, as the code has it. For a series of at least two points, \<open>maxVal\<close> is the maximum
  \<open>M\<close> over all success and error values, floored at 1, times \<open>1.1\<close>: the floor is
  applied before the headroom factor, so \<open>maxVal\<close> is at least \<open>1.1\<close>. It is the spec's
  value (\<open>M * 1.1\<close>, floored at 1) whenever \<open>M \<ge> 1\<close>. Point \<open>i\<close> of the success line is
  at \<open>x = padL + (i / (n - 1)) * chartW\<close> and
  \<open>y = padT + (1 - success / maxVal) * chartH\<close>.
\<close>

theorem maxVal_scale:
  assumes "2 \<le> length points"
  shows "maxVal points
           = max (Max (set (map success points) \<union> set (map errors points))) 1 * (11 / 10) \<and>
         11 / 10 \<le> maxVal points \<and>
         (1 \<le> Max (set (map success points) \<union> set (map errors points))
            \<longrightarrow> maxVal points = spec_maxValue points) \<and>
         (\<forall>i < length points.
            successPts points ! i
              = (padL + (real i / real (length points - 1)) * chartW,
                 padT + (1 - success (points ! i) / maxVal points) * chartH))"
proof -
  let ?M = "Max (set (map success points) \<union> set (map errors points))"
  from assms have ne: "points \<noteq> []" by auto
  have 1: "maxVal points = max ?M 1 * (11 / 10)"
    unfolding maxVal_def foldr_max_Max using ne by simp
  have 2: "11 / 10 \<le> maxVal points" unfolding 1 by simp
  have 3: "maxVal points = spec_maxValue points" if "1 \<le> ?M"
  proof -
    from that have "max ?M 1 = ?M" by simp
    moreover from that have "1 \<le> ?M * (11 / 10)" by simp
    then have "max (?M * (11 / 10)) 1 = ?M * (11 / 10)" by simp
    ultimately show ?thesis unfolding 1 spec_maxValue_def by simp
  qed
  have 4: "\<forall>i < length points.
            successPts points ! i
              = (padL + (real i / real (length points - 1)) * chartW,
                 padT + (1 - success (points ! i) / maxVal points) * chartH)"
    by (simp add: successPts_nth px_def py_def)
  from 1 2 3 4 show ?thesis by blast
qed

theorem maxVal_scale_witness:
  "maxVal [\<lparr>hour = ''00:00'', success = 100, errors = 5\<rparr>,
           \<lparr>hour = ''01:00'', success = 150, errors = 3\<rparr>] = 165 \<and>
   snd (successPts [\<lparr>hour = ''00:00'', success = 100, errors = 5\<rparr>,
                    \<lparr>hour = ''01:00'', success = 150, errors = 3\<rparr>] ! 0)
     = padT + (1 - 100 / 165) * chartH"
proof -
  let ?pts = "[\<lparr>hour = ''00:00'', success = 100, errors = 5\<rparr>,
               \<lparr>hour = ''01:00'', success = 150, errors = 3\<rparr>]"
  have len: "2 \<le> length ?pts" by simp
  note t = maxVal_scale[OF len]
  have M: "Max (set (map success ?pts) \<union> set (map errors ?pts)) = 150" by simp
  from t have "maxVal ?pts = max (Max (set (map success ?pts) \<union> set (map errors ?pts))) 1 * (11 / 10)"
    by blast
  then have m: "maxVal ?pts = 165" unfolding M by simp
  from t have "\<forall>i < length ?pts. successPts ?pts ! i
              = (padL + (real i / real (length ?pts - 1)) * chartW,
                 padT + (1 - success (?pts ! i) / maxVal ?pts) * chartH)"
    by blast
  then have "successPts ?pts ! 0
              = (padL + (real 0 / real (length ?pts - 1)) * chartW,
                 padT + (1 - success (?pts ! 0) / maxVal ?pts) * chartH)"
    by (simp del: length_Cons)
  then have "snd (successPts ?pts ! 0) = padT + (1 - 100 / 165) * chartH"
    unfolding m by simp
  with m show ?thesis by blast
qed

text \<open>
  The claim as written fails on a series whose values are all below 1: for two points
  with no traffic the code's scale is \<open>1.1\<close>, the spec's is \<open>1\<close>.
\<close>

theorem maxVal_floor_counterexample:
  "maxVal [\<lparr>hour = ''00:00'', success = 0, errors = 0\<rparr>,
           \<lparr>hour = ''01:00'', success = 0, errors = 0\<rparr>]
   \<noteq> spec_maxValue [\<lparr>hour = ''00:00'', success = 0, errors = 0\<rparr>,
                     \<lparr>hour = ''01:00'', success = 0, errors = 0\<rparr>]"
  by (simp add: maxVal_def spec_maxValue_def)

lemma foldl_push_filter:
  "foldl (\<lambda>acc i. if P i then acc @ [i] else acc) a xs = a @ filter P xs"
  by (induction xs arbitrary: a) simp_all

lemma xLabelIndices_filter:
  "xLabelIndices points
     = filter (\<lambda>i. i = 0 \<or> i = length points - 1 \<or> js_mod i (length points div 5) = Some 0)
         [0..<length points]"
  unfolding xLabelIndices_def foldl_push_filter by simp

lemma js_mod_zero_iff: "js_mod i k = Some 0 \<longleftrightarrow> k \<noteq> 0 \<and> i mod k = 0"
  by (simp add: js_mod_def)

text \<open>
  C6, as the code has it. For a series of \<open>n \<ge> 2\<close> points the labelled indices are, in
  increasing order, the indices \<open>i < n\<close> that are \<open>0\<close>, or \<open>n - 1\<close>, or, when
  \<open>n \<ge> 5\<close>, a multiple of \<open>floor(n / 5)\<close>. From \<open>n = 5\<close> on this is the spec's list
  with \<open>N = max(1, floor(n / 5))\<close>; below 5 the step is 0, the remainder is
  \<^verbatim>\<open>NaN\<close>, and only the first and the last index are labelled.
\<close>

theorem xLabelIndices_positions:
  assumes "2 \<le> length points"
  shows "xLabelIndices points
           = filter (\<lambda>i. i = 0 \<or> i = length points - 1 \<or>
                          (5 \<le> length points \<and> i mod (length points div 5) = 0))
               [0..<length points] \<and>
         0 \<in> set (xLabelIndices points) \<and>
         length points - 1 \<in> set (xLabelIndices points) \<and>
         (5 \<le> length points \<longrightarrow> xLabelIndices points = spec_xLabelIndices (length points)) \<and>
         (length points < 5 \<longrightarrow> xLabelIndices points = [0, length points - 1])"
proof -
  let ?n = "length points"
  have k: "?n div 5 \<noteq> 0 \<longleftrightarrow> 5 \<le> ?n" by (auto simp: div_eq_0_iff)
  have 1: "xLabelIndices points
           = filter (\<lambda>i. i = 0 \<or> i = ?n - 1 \<or> (5 \<le> ?n \<and> i mod (?n div 5) = 0)) [0..<?n]"
    unfolding xLabelIndices_filter js_mod_zero_iff k ..
  from assms have pos: "0 < ?n" by linarith
  have 2: "0 \<in> set (xLabelIndices points)" "?n - 1 \<in> set (xLabelIndices points)"
    unfolding 1 using pos by simp_all
  have 3: "xLabelIndices points = spec_xLabelIndices ?n" if "5 \<le> ?n"
  proof -
    from that have "1 \<le> ?n div 5" by (simp add: Suc_le_eq div_greater_zero_iff)
    then have "max 1 (?n div 5) = ?n div 5" by simp
    then show ?thesis unfolding 1 spec_xLabelIndices_def using that by simp
  qed
  have 4: "xLabelIndices points = [0, ?n - 1]" if "?n < 5"
  proof -
    from that assms consider "?n = 2" | "?n = 3" | "?n = 4" by linarith
    then show ?thesis
    proof cases
      case 1
      then have "[0..<?n] = [0, 1]" by (simp add: upt_conv_Cons)
      then show ?thesis unfolding \<open>xLabelIndices points = _\<close> using 1 by simp
    next
      case 2
      then have "[0..<?n] = [0, 1, 2]" by (simp add: upt_conv_Cons)
      then show ?thesis unfolding \<open>xLabelIndices points = _\<close> using 2 by simp
    next
      case 3
      then have "[0..<?n] = [0, 1, 2, 3]" by (simp add: upt_conv_Cons)
      then show ?thesis unfolding \<open>xLabelIndices points = _\<close> using 3 by simp
    qed
  qed
  from 1 2 3 4 show ?thesis by blast
qed

theorem xLabelIndices_positions_witness:
  "xLabelIndices ''0123456789ab'' = [0, 2, 4, 6, 8, 10, 11] \<and>
   xLabelIndices ''012'' = [0, 2]"
proof -
  have a: "2 \<le> length ''0123456789ab''" "2 \<le> length ''012''" by simp_all
  have u: "[0..<12] = [0, 1, 2, 3, 4, 5, 6, 7, 8, 9, 10, 11::nat]" by (simp add: upt_conv_Cons)
  from xLabelIndices_positions[OF a(1)]
  have "xLabelIndices ''0123456789ab''
          = filter (\<lambda>i. i = 0 \<or> i = length ''0123456789ab'' - 1 \<or>
                          (5 \<le> length ''0123456789ab'' \<and> i mod (length ''0123456789ab'' div 5) = 0))
               [0..<length ''0123456789ab'']" by blast
  then have 1: "xLabelIndices ''0123456789ab'' = [0, 2, 4, 6, 8, 10, 11]"
    by (simp add: u)
  from xLabelIndices_positions[OF a(2)]
  have "length ''012'' < 5 \<longrightarrow> xLabelIndices ''012'' = [0, length ''012'' - 1]" by blast
  then have 2: "xLabelIndices ''012'' = [0, 2]" by simp
  from 1 2 show ?thesis by blast
qed

text \<open>
  The claim as written fails below five points: with three points the spec labels every
  index, the code only the first and the last.
\<close>

theorem xLabelIndices_short_series_counterexample:
  "xLabelIndices [\<lparr>hour = ''00:00'', success = 1, errors = 0\<rparr>,
                  \<lparr>hour = ''01:00'', success = 2, errors = 0\<rparr>,
                  \<lparr>hour = ''02:00'', success = 3, errors = 0\<rparr>]
   \<noteq> spec_xLabelIndices 3"
  by (simp add: xLabelIndices_def spec_xLabelIndices_def js_mod_def upt_conv_Cons)

subsection \<open>Donut\<close>

lemma donut_arcs_length: "length (donut_arcs cx cy c off ss) = length ss"
  by (induction ss arbitrary: off) (simp_all add: Let_def)

lemma donut_arcs_stroke: "map stroke (donut_arcs cx cy c off ss) = map color ss"
  by (induction ss arbitrary: off) (simp_all add: Let_def)

lemma donut_arcs_dash: "map dash (donut_arcs cx cy c off ss) = map (\<lambda>s. pct s / 100 * c) ss"
  by (induction ss arbitrary: off) (simp_all add: Let_def)

lemma donut_arcs_gap: "a \<in> set (donut_arcs cx cy c off ss) \<Longrightarrow> gap a = c - dash a"
  by (induction ss arbitrary: off) (auto simp: Let_def)

lemma donut_arcs_rotate: "a \<in> set (donut_arcs cx cy c off ss) \<Longrightarrow> rotate a = (- 90, cx, cy)"
  by (induction ss arbitrary: off) (auto simp: Let_def)

text \<open>
  The offset of an arc is the start offset plus the lengths of the arcs before it.
\<close>

lemma donut_arcs_offset:
  "i < length ss \<Longrightarrow>
   dashoffset (donut_arcs cx cy c off ss ! i)
     = - (off + sum_list (map dash (take i (donut_arcs cx cy c off ss))))"
proof (induction ss arbitrary: off i)
  case Nil
  then show ?case by simp
next
  case (Cons s ss)
  show ?case
  proof (cases i)
    case 0
    then show ?thesis by (simp add: Let_def)
  next
    case (Suc j)
    with Cons.prems have "j < length ss" by simp
    from Cons.IH[OF this, of "off + pct s / 100 * c"] Suc
    show ?thesis by (simp add: Let_def add.assoc)
  qed
qed

lemma donut_arcs_total:
  "sum_list (map dash (donut_arcs cx cy c off ss)) = sum_list (map pct ss) / 100 * c"
  unfolding donut_arcs_dash
  by (induction ss) (simp_all add: algebra_simps add_divide_distrib)

text \<open>
  C5. For both donuts (\<open>r = 46\<close> in \<^verbatim>\<open>DonutChart\<close>, \<open>r = 28\<close> in \<^verbatim>\<open>Donut\<close>) and every
  slice list: there is one arc per slice, in input order (the strokes are the slices'
  colours in order); arc \<open>i\<close> has length \<open>(pct / 100) * circumference\<close>, its gap is the
  rest of the circle, and it starts where the arcs before it end (its dash offset is
  minus the sum of their lengths, 0 for the first), under the rotation by \<open>-90\<close> degrees;
  and when the percentages sum to 100 the arc lengths sum to the circumference.
\<close>

theorem donut_arcs_consecutive:
  assumes "(d = DonutChart slices \<and> r = 46) \<or> (d = Donut slices \<and> r = 28)"
  shows "length (arcs d) = length slices \<and>
         map stroke (arcs d) = map color slices \<and>
         (\<forall>i < length slices.
            dash (arcs d ! i) = (pct (slices ! i) / 100) * (2 * pi * r) \<and>
            gap (arcs d ! i) = 2 * pi * r - dash (arcs d ! i) \<and>
            dashoffset (arcs d ! i) = - sum_list (map dash (take i (arcs d))) \<and>
            fst (rotate (arcs d ! i)) = - 90) \<and>
         (sum_list (map pct slices) = 100 \<longrightarrow> sum_list (map dash (arcs d)) = 2 * pi * r)"
proof -
  from assms obtain cx cy where d: "arcs d = donut_arcs cx cy (2 * pi * r) 0 slices"
    by (auto simp: DonutChart_def Donut_def donut_def Let_def)
  have 1: "length (arcs d) = length slices" unfolding d by (rule donut_arcs_length)
  have 2: "map stroke (arcs d) = map color slices" unfolding d by (rule donut_arcs_stroke)
  have 3: "dash (arcs d ! i) = (pct (slices ! i) / 100) * (2 * pi * r) \<and>
            gap (arcs d ! i) = 2 * pi * r - dash (arcs d ! i) \<and>
            dashoffset (arcs d ! i) = - sum_list (map dash (take i (arcs d))) \<and>
            fst (rotate (arcs d ! i)) = - 90" if i: "i < length slices" for i
  proof -
    from i 1 have mem: "arcs d ! i \<in> set (donut_arcs cx cy (2 * pi * r) 0 slices)"
      unfolding d[symmetric] by simp
    have "map dash (arcs d) ! i = map (\<lambda>s. pct s / 100 * (2 * pi * r)) slices ! i"
      unfolding d donut_arcs_dash ..
    with i 1 have a: "dash (arcs d ! i) = (pct (slices ! i) / 100) * (2 * pi * r)" by simp
    have b: "gap (arcs d ! i) = 2 * pi * r - dash (arcs d ! i)"
      using mem by (rule donut_arcs_gap)
    have c: "dashoffset (arcs d ! i) = - sum_list (map dash (take i (arcs d)))"
      unfolding d using donut_arcs_offset[OF i, of cx cy "2 * pi * r" 0] by simp
    have "rotate (arcs d ! i) = (- 90, cx, cy)" using mem by (rule donut_arcs_rotate)
    then have e: "fst (rotate (arcs d ! i)) = - 90" by simp
    from a b c e show ?thesis by blast
  qed
  have 4: "sum_list (map dash (arcs d)) = 2 * pi * r" if "sum_list (map pct slices) = 100"
    unfolding d donut_arcs_total that by simp
  from 1 2 3 4 show ?thesis by blast
qed

theorem donut_arcs_consecutive_witness:
  "sum_list (map dash (arcs (DonutChart
      [\<lparr>label = ''2xx'', pct = 94, color = ''#059669''\<rparr>,
       \<lparr>label = ''4xx'', pct = 5, color = ''#d97706''\<rparr>,
       \<lparr>label = ''5xx'', pct = 1, color = ''#dc2626''\<rparr>]))) = 2 * pi * 46 \<and>
   map stroke (arcs (DonutChart
      [\<lparr>label = ''2xx'', pct = 94, color = ''#059669''\<rparr>,
       \<lparr>label = ''4xx'', pct = 5, color = ''#d97706''\<rparr>,
       \<lparr>label = ''5xx'', pct = 1, color = ''#dc2626''\<rparr>])) = [''#059669'', ''#d97706'', ''#dc2626'']"
proof -
  let ?sl = "[\<lparr>label = ''2xx'', pct = 94, color = ''#059669''\<rparr>,
       \<lparr>label = ''4xx'', pct = 5, color = ''#d97706''\<rparr>,
       \<lparr>label = ''5xx'', pct = 1, color = ''#dc2626''\<rparr>]"
  have h: "(DonutChart ?sl = DonutChart ?sl \<and> (46::real) = 46) \<or>
           (DonutChart ?sl = Donut ?sl \<and> (46::real) = 28)" by simp
  note t = donut_arcs_consecutive[OF h]
  have s: "sum_list (map pct ?sl) = 100" by simp
  from t s have "sum_list (map dash (arcs (DonutChart ?sl))) = 2 * pi * 46" by blast
  moreover from t have "map stroke (arcs (DonutChart ?sl)) = map color ?sl" by blast
  ultimately show ?thesis by simp
qed

text \<open>
  C9, as the code has it. On the empty slice array both donuts have no arcs; the centre
  text has no number in front of the per-cent sign, which is still drawn, as is the
  caption below it.
\<close>

theorem donut_empty:
  "arcs (DonutChart []) = [] \<and> centerLabel (DonutChart []) = ''%'' \<and>
   caption (DonutChart []) = ''success'' \<and>
   arcs (Donut []) = [] \<and> centerLabel (Donut []) = ''%'' \<and>
   caption (Donut []) = ''success''"
  by (simp add: DonutChart_def Donut_def donut_def centerText_def Let_def)

text \<open>The claim as written fails: the centre label of the empty donut is not empty.\<close>

theorem donut_empty_label_counterexample:
  "centerLabel (DonutChart []) \<noteq> '''' \<and> centerLabel (Donut []) \<noteq> ''''"
  by (simp add: DonutChart_def Donut_def donut_def centerText_def Let_def)

end
